theory Spec2Isabelle
  imports Main "HOL-Library.AList"
begin

section \<open>The signaling server: data model\<close>

text \<open>
  The server (src/unnamed/part_000) pairs a desktop socket with a mobile socket through a
  session registry, \<^verbatim>\<open>const sessions = new Map()\<close>, and relays opaque signaling payloads.
  Every handler runs to completion on Node's single event loop, so a handler is modelled as
  a function from the server state to the new state and the list of messages it emits, in
  emission order.

  A connection handle is \<^verbatim>\<open>socket.id\<close>, a string. The fields \<^verbatim>\<open>session.mobile\<close> and
  \<^verbatim>\<open>targetId\<close> hold \<^verbatim>\<open>null\<close> or a string, modelled as \<open>string option\<close>. The source tests
  them by JavaScript truthiness (\<^verbatim>\<open>!session.mobile\<close>, \<^verbatim>\<open>if (targetId)\<close>): \<^verbatim>\<open>null\<close> and the
  empty string are falsy, every other string is truthy.
\<close>

type_synonym handle = string
type_synonym session_id = string
type_synonym payload = string
type_synonym timer_handle = nat

fun truthy :: "handle option \<Rightarrow> bool" where
  "truthy None = False"
| "truthy (Some h) = (h \<noteq> [])"

text \<open>An entry of \<^verbatim>\<open>session.pendingSignals\<close>: \<^verbatim>\<open>{ targetId, data: signal }\<close>.\<close>

record pending_signal =
  targetId :: "handle option"
  data :: payload

text \<open>
  The session object stored by \<^verbatim>\<open>create-session\<close>. The field \<open>timeout\<close> is the handle
  returned by \<^verbatim>\<open>setTimeout\<close>; \<open>created\<close> is \<^verbatim>\<open>Date.now()\<close>.
\<close>

record session =
  desktop :: handle
  mobile :: "handle option"
  ready :: bool
  pendingSignals :: "pending_signal list"
  created :: nat
  timeout :: timer_handle

text \<open>The outbound messages, by event name and payload.\<close>

datatype message =
    SessionCreated session_id
  | SessionNotFound
  | MobileConnected
  | ConnectionSuccessful
  | SignalMsg payload
  | PeerDisconnected
  | SessionTimeout

text \<open>
  One emission: \<^verbatim>\<open>io.to(x).emit(m)\<close> is the pair \<open>(x, m)\<close>, where \<open>x\<close> is the address the
  source passes to \<^verbatim>\<open>io.to\<close> (it may be \<^verbatim>\<open>null\<close>); \<^verbatim>\<open>socket.emit(m)\<close> is addressed to the
  handler's own socket. What the transport does with an address is outside the source.
\<close>

type_synonym emit = "handle option \<times> message"

text \<open>
  The server state. \<open>sessions\<close> is the JavaScript \<^verbatim>\<open>Map\<close> as an association list in
  insertion order: \<^verbatim>\<open>Map.set\<close> is \<open>AList.update\<close> (an existing key keeps its position, a new
  key is appended), \<^verbatim>\<open>Map.delete\<close> is \<open>AList.delete\<close>, \<^verbatim>\<open>Map.has\<close>/\<^verbatim>\<open>Map.get\<close> are \<open>map_of\<close>,
  and \<^verbatim>\<open>Map.entries()\<close> is the list itself. \<open>timers\<close> holds the one-shot timers armed by
  \<^verbatim>\<open>setTimeout\<close> that have neither fired nor been cleared, each with the \<^verbatim>\<open>sessionId\<close> its
  callback closes over; \<open>next_timer\<close> is the runtime's supply of fresh timer handles.
\<close>

record server =
  sessions :: "(session_id \<times> session) list"
  timers :: "(timer_handle \<times> session_id) list"
  next_timer :: timer_handle

definition init :: server where
  "init = \<lparr>sessions = [], timers = [], next_timer = 0\<rparr>"

section \<open>The handlers\<close>

text \<open>
  The callback passed to \<^verbatim>\<open>setTimeout\<close> in \<^verbatim>\<open>create-session\<close> (lines 61-71): it acts only
  when the session is still registered and \<^verbatim>\<open>!session.mobile\<close>. A stored session is an
  object, so the test \<^verbatim>\<open>session &&\<close> always passes.
\<close>

definition timeout_callback :: "session_id \<Rightarrow> server \<Rightarrow> server \<times> emit list" where
  "timeout_callback sessionId s =
     (case map_of (sessions s) sessionId of
        None \<Rightarrow> (s, [])
      | Some session \<Rightarrow>
          if \<not> truthy (mobile session)
          then (s\<lparr>sessions := AList.delete sessionId (sessions s)\<rparr>,
                [(Some (desktop session), SessionTimeout)])
          else (s, []))"

text \<open>
  The runtime firing timer \<open>t\<close>: a timer that is not armed (cleared by \<^verbatim>\<open>clearTimeout\<close>, or
  already fired) never runs; an armed one is disarmed and its callback runs.
\<close>

definition fire_timer :: "timer_handle \<Rightarrow> server \<Rightarrow> server \<times> emit list" where
  "fire_timer t s =
     (case map_of (timers s) t of
        None \<Rightarrow> (s, [])
      | Some sessionId \<Rightarrow> timeout_callback sessionId (s\<lparr>timers := AList.delete t (timers s)\<rparr>))"

text \<open>
  \<^verbatim>\<open>socket.on('create-session')\<close> (lines 53-76). \<open>sessionId\<close> is the value \<^verbatim>\<open>uuidv4()\<close>
  returned and \<open>now\<close> the value of \<^verbatim>\<open>Date.now()\<close>.
\<close>

definition on_create_session :: "handle \<Rightarrow> session_id \<Rightarrow> nat \<Rightarrow> server \<Rightarrow> server \<times> emit list" where
  "on_create_session socket_id sessionId now s =
     (let t = next_timer s in
      (s\<lparr>sessions :=
           AList.update sessionId
             \<lparr>desktop = socket_id, mobile = None, ready = False, pendingSignals = [],
              created = now, timeout = t\<rparr>
             (sessions s),
         timers := timers s @ [(t, sessionId)],
         next_timer := Suc t\<rparr>,
       [(Some socket_id, SessionCreated sessionId)]))"

text \<open>
  \<^verbatim>\<open>socket.on('join-session')\<close> (lines 79-113). The session object is mutated in place, so
  the entry keeps its position in the registry. The pending signals are emitted by
  \<^verbatim>\<open>forEach\<close>, in array order, each to its stored \<^verbatim>\<open>targetId\<close>.
\<close>

definition flush_pending :: "pending_signal list \<Rightarrow> emit list" where
  "flush_pending ps = map (\<lambda>signal. (targetId signal, SignalMsg (data signal))) ps"

definition on_join_session :: "handle \<Rightarrow> session_id \<Rightarrow> server \<Rightarrow> server \<times> emit list" where
  "on_join_session socket_id sessionId s =
     (case map_of (sessions s) sessionId of
        Some session \<Rightarrow>
          (let session1 = session\<lparr>mobile := Some socket_id, ready := True\<rparr>;
               notify = [(Some (desktop session1), MobileConnected),
                         (Some socket_id, ConnectionSuccessful)];
               (session2, flushed) =
                 (if length (pendingSignals session1) > 0
                  then (session1\<lparr>pendingSignals := []\<rparr>, flush_pending (pendingSignals session1))
                  else (session1, []))
           in (s\<lparr>timers := AList.delete (timeout session) (timers s),
                 sessions := AList.update sessionId session2 (sessions s)\<rparr>,
               notify @ flushed))
      | None \<Rightarrow> (s, [(Some socket_id, SessionNotFound)]))"

text \<open>\<^verbatim>\<open>socket.on('signal')\<close> (lines 116-140).\<close>

definition on_signal :: "handle \<Rightarrow> session_id \<Rightarrow> payload \<Rightarrow> server \<Rightarrow> server \<times> emit list" where
  "on_signal socket_id sessionId signal s =
     (case map_of (sessions s) sessionId of
        Some session \<Rightarrow>
          (let targetId = (if socket_id = desktop session then mobile session
                           else Some (desktop session))
           in if \<not> ready session
              then (s\<lparr>sessions :=
                        AList.update sessionId
                          (session\<lparr>pendingSignals :=
                             pendingSignals session @ [\<lparr>targetId = targetId, data = signal\<rparr>]\<rparr>)
                          (sessions s)\<rparr>,
                    [])
              else if truthy targetId
                   then (s, [(targetId, SignalMsg signal)])
                   else (s, []))
      | None \<Rightarrow> (s, []))"

text \<open>
  \<^verbatim>\<open>socket.on('disconnect')\<close> (lines 143-160): the \<^verbatim>\<open>for ... of sessions.entries()\<close> loop
  with its \<^verbatim>\<open>break\<close>. \<open>disconnect_scan\<close> walks the entries still to visit; the first entry
  that matches is handled and the loop ends.
\<close>

fun disconnect_scan :: "handle \<Rightarrow> (session_id \<times> session) list \<Rightarrow> server \<Rightarrow> server \<times> emit list" where
  "disconnect_scan socket_id [] s = (s, [])"
| "disconnect_scan socket_id ((sessionId, session) # rest) s =
     (if desktop session = socket_id \<or> mobile session = Some socket_id
      then (let targetId = (if socket_id = desktop session then mobile session
                            else Some (desktop session))
            in (s\<lparr>sessions := AList.delete sessionId (sessions s)\<rparr>,
                if truthy targetId then [(targetId, PeerDisconnected)] else []))
      else disconnect_scan socket_id rest s)"

definition on_disconnect :: "handle \<Rightarrow> server \<Rightarrow> server \<times> emit list" where
  "on_disconnect socket_id s = disconnect_scan socket_id (sessions s) s"

section \<open>Event traces\<close>

text \<open>
  The inbound events of the serial event stream: the four socket events, each with the
  \<^verbatim>\<open>socket.id\<close> of the socket it arrived on, and the expiry of a timer. The fields the
  handlers destructure from the payload (\<^verbatim>\<open>{ sessionId }\<close>, \<^verbatim>\<open>{ sessionId, signal }\<close>) are the
  arguments of the event; a payload that is not an object makes the destructuring throw
  before the handler body runs and is not an event of the model. A \<^verbatim>\<open>sessionId\<close> that is not
  a string is never a key of the registry and behaves as an unregistered identifier.
\<close>

datatype event =
    CreateSession handle session_id nat
  | JoinSession handle session_id
  | Signal handle session_id payload
  | Disconnect handle
  | TimerFires timer_handle

fun step :: "event \<Rightarrow> server \<Rightarrow> server \<times> emit list" where
  "step (CreateSession h sid now) s = on_create_session h sid now s"
| "step (JoinSession h sid) s = on_join_session h sid s"
| "step (Signal h sid p) s = on_signal h sid p s"
| "step (Disconnect h) s = on_disconnect h s"
| "step (TimerFires t) s = fire_timer t s"

text \<open>The state after a trace of events, starting from \<open>s\<close>.\<close>

fun run :: "event list \<Rightarrow> server \<Rightarrow> server" where
  "run [] s = s"
| "run (e # es) s = run es (fst (step e s))"

text \<open>
  The transport assigns every socket a non-empty \<^verbatim>\<open>socket.id\<close>; an event is well formed
  when the handle it carries is non-empty.
\<close>

fun wf_event :: "event \<Rightarrow> bool" where
  "wf_event (CreateSession h sid now) = (h \<noteq> [])"
| "wf_event (JoinSession h sid) = (h \<noteq> [])"
| "wf_event (Signal h sid p) = (h \<noteq> [])"
| "wf_event (Disconnect h) = (h \<noteq> [])"
| "wf_event (TimerFires t) = True"

section \<open>Invariants of reachable states\<close>

text \<open>
  What holds of a registered session in every state the server reaches from \<open>init\<close> by
  well-formed events: the desktop handle is a socket id; \<open>ready\<close> is set exactly when a
  mobile handle is attached; the session's timer handle was issued by the runtime; a ready
  session has an empty buffer; a session that is not ready has no mobile handle and its
  expiry timer is still armed for its own identifier.
\<close>

definition session_ok :: "server \<Rightarrow> session_id \<Rightarrow> session \<Rightarrow> bool" where
  "session_ok s sid ses =
     (desktop ses \<noteq> [] \<and> ready ses = truthy (mobile ses) \<and> timeout ses < next_timer s \<and>
      (if ready ses then pendingSignals ses = []
       else mobile ses = None \<and> map_of (timers s) (timeout ses) = Some sid))"

text \<open>
  The invariant of the whole state: armed timers carry handles the runtime has issued,
  every registered session is \<open>session_ok\<close>, and no two registered sessions share a timer
  handle.
\<close>

definition registry_ok :: "server \<Rightarrow> bool" where
  "registry_ok s =
     ((\<forall>t sid. map_of (timers s) t = Some sid \<longrightarrow> t < next_timer s) \<and>
      (\<forall>sid ses. map_of (sessions s) sid = Some ses \<longrightarrow> session_ok s sid ses) \<and>
      (\<forall>sid sid' ses ses'. map_of (sessions s) sid = Some ses \<longrightarrow>
          map_of (sessions s) sid' = Some ses' \<longrightarrow> timeout ses = timeout ses' \<longrightarrow> sid = sid'))"

text \<open>
  The test of the disconnect loop on a registry entry, and the handle the loop notifies:
  \<^verbatim>\<open>socket.id === session.desktop ? session.mobile : session.desktop\<close>.
\<close>

definition participant :: "handle \<Rightarrow> session_id \<times> session \<Rightarrow> bool" where
  "participant h e = (desktop (snd e) = h \<or> mobile (snd e) = Some h)"

definition peer_of :: "handle \<Rightarrow> session \<Rightarrow> handle option" where
  "peer_of h ses = (if h = desktop ses then mobile ses else Some (desktop ses))"

section \<open>The handlers, case by case\<close>

lemmas handler_defs = init_def on_create_session_def on_join_session_def on_signal_def
  on_disconnect_def fire_timer_def timeout_callback_def flush_pending_def participant_def
  peer_of_def Let_def

lemma registry_ok_init: "registry_ok init"
  by (simp add: registry_ok_def init_def)

lemma create_sessions:
  "map_of (sessions (fst (on_create_session h sid now s))) =
     (map_of (sessions s))(sid \<mapsto> \<lparr>desktop = h, mobile = None, ready = False,
        pendingSignals = [], created = now, timeout = next_timer s\<rparr>)"
  by (simp add: on_create_session_def Let_def AList.update_conv')

lemma create_timers:
  "map_of (timers s) (next_timer s) = None \<Longrightarrow>
   map_of (timers (fst (on_create_session h sid now s))) = (map_of (timers s))(next_timer s \<mapsto> sid)"
  by (auto simp: on_create_session_def Let_def map_add_def fun_eq_iff split: option.splits)

lemma create_next: "next_timer (fst (on_create_session h sid now s)) = Suc (next_timer s)"
  by (simp add: on_create_session_def Let_def)

lemma registry_ok_create:
  assumes i: "registry_ok s" and h: "h \<noteq> []"
  shows "registry_ok (fst (on_create_session h sid now s))"
proof -
  define s' where "s' = fst (on_create_session h sid now s)"
  have fresh: "map_of (timers s) (next_timer s) = None"
    using i unfolding registry_ok_def by (metis less_irrefl not_None_eq)
  have S: "map_of (sessions s') = (map_of (sessions s))(sid \<mapsto> \<lparr>desktop = h, mobile = None,
        ready = False, pendingSignals = [], created = now, timeout = next_timer s\<rparr>)"
    and T: "map_of (timers s') = (map_of (timers s))(next_timer s \<mapsto> sid)"
    and N: "next_timer s' = Suc (next_timer s)"
    unfolding s'_def by (rule create_sessions, rule create_timers[OF fresh], rule create_next)
  have old: "session_ok s' sid' ses" if "session_ok s sid' ses" for sid' ses
    using that unfolding session_ok_def T N by (auto simp: less_Suc_eq)
  have new: "session_ok s' sid \<lparr>desktop = h, mobile = None,
        ready = False, pendingSignals = [], created = now, timeout = next_timer s\<rparr>"
    using h unfolding session_ok_def T N by simp
  have lt: "timeout ses < next_timer s" if "map_of (sessions s) sid' = Some ses" for sid' ses
    using i that unfolding registry_ok_def session_ok_def by blast
  have "registry_ok s'"
    unfolding registry_ok_def
  proof (intro conjI allI impI)
    fix t sid' assume "map_of (timers s') t = Some sid'"
    then show "t < next_timer s'"
      using i unfolding T N registry_ok_def by (auto simp: less_Suc_eq split: if_splits)
  next
    fix sid' ses assume m: "map_of (sessions s') sid' = Some ses"
    show "session_ok s' sid' ses"
    proof (cases "sid' = sid")
      case True
      then show ?thesis using m new unfolding S by simp
    next
      case False
      then have "map_of (sessions s) sid' = Some ses" using m unfolding S by simp
      then show ?thesis using i old unfolding registry_ok_def by blast
    qed
  next
    fix sid1 sid2 ses1 ses2
    assume m: "map_of (sessions s') sid1 = Some ses1" "map_of (sessions s') sid2 = Some ses2"
      "timeout ses1 = timeout ses2"
    show "sid1 = sid2"
    proof (cases "sid1 = sid"; cases "sid2 = sid")
      assume "sid1 = sid" "sid2 = sid" then show ?thesis by simp
    next
      assume "sid1 = sid" "sid2 \<noteq> sid"
      then show ?thesis using m lt[of sid2 ses2] unfolding S by auto
    next
      assume "sid1 \<noteq> sid" "sid2 = sid"
      then show ?thesis using m lt[of sid1 ses1] unfolding S by auto
    next
      assume "sid1 \<noteq> sid" "sid2 \<noteq> sid"
      then show ?thesis using m i unfolding S registry_ok_def by auto
    qed
  qed
  then show ?thesis unfolding s'_def .
qed

lemma join_known:
  "map_of (sessions s) sid = Some ses \<Longrightarrow>
   on_join_session h sid s =
     (s\<lparr>timers := AList.delete (timeout ses) (timers s),
        sessions := AList.update sid (ses\<lparr>mobile := Some h, ready := True, pendingSignals := []\<rparr>)
                      (sessions s)\<rparr>,
      [(Some (desktop ses), MobileConnected), (Some h, ConnectionSuccessful)]
        @ flush_pending (pendingSignals ses))"
proof -
  assume m: "map_of (sessions s) sid = Some ses"
  have e: "pendingSignals ses = [] \<Longrightarrow>
    ses\<lparr>mobile := Some h, ready := True\<rparr> = ses\<lparr>mobile := Some h, ready := True, pendingSignals := []\<rparr>"
    by (cases ses) simp
  show ?thesis
  proof (cases "pendingSignals ses = []")
    case True
    show ?thesis using m True by (simp add: on_join_session_def Let_def flush_pending_def e[OF True, symmetric])
  next
    case False
    show ?thesis using m False by (simp add: on_join_session_def Let_def flush_pending_def)
  qed
qed

lemma join_unknown:
  "map_of (sessions s) sid = None \<Longrightarrow> on_join_session h sid s = (s, [(Some h, SessionNotFound)])"
  by (simp add: on_join_session_def)

lemma registry_ok_join:
  assumes i: "registry_ok s" and h: "h \<noteq> []"
  shows "registry_ok (fst (on_join_session h sid s))"
proof (cases "map_of (sessions s) sid")
  case None
  then show ?thesis using i by (simp add: join_unknown)
next
  case (Some ses)
  define ses2 where "ses2 = ses\<lparr>mobile := Some h, ready := True, pendingSignals := []\<rparr>"
  define s' where "s' = fst (on_join_session h sid s)"
  have S: "map_of (sessions s') = (map_of (sessions s))(sid \<mapsto> ses2)"
    and T: "map_of (timers s') = (map_of (timers s))(timeout ses := None)"
    and N: "next_timer s' = next_timer s"
    unfolding s'_def ses2_def join_known[OF Some]
    by (simp_all add: AList.update_conv' AList.delete_conv')
  have ok: "session_ok s sid' x" if "map_of (sessions s) sid' = Some x" for sid' x
    using i that unfolding registry_ok_def by blast
  have inj: "sid1 = sid2" if "map_of (sessions s) sid1 = Some x" "map_of (sessions s) sid2 = Some y"
    "timeout x = timeout y" for sid1 sid2 x y
    using i that unfolding registry_ok_def by blast
  have "registry_ok s'"
    unfolding registry_ok_def
  proof (intro conjI allI impI)
    fix t sid' assume "map_of (timers s') t = Some sid'"
    then show "t < next_timer s'"
      using i unfolding T N registry_ok_def by (auto split: if_splits)
  next
    fix sid' x assume m: "map_of (sessions s') sid' = Some x"
    show "session_ok s' sid' x"
    proof (cases "sid' = sid")
      case True
      then have "x = ses2" using m unfolding S by simp
      then show ?thesis using ok[OF Some] h unfolding session_ok_def ses2_def N by simp
    next
      case False
      then have m0: "map_of (sessions s) sid' = Some x" using m unfolding S by simp
      have "timeout x \<noteq> timeout ses" using inj[OF m0 Some] False by blast
      then show ?thesis using ok[OF m0] unfolding session_ok_def T N by simp
    qed
  next
    fix sid1 sid2 x y
    assume m: "map_of (sessions s') sid1 = Some x" "map_of (sessions s') sid2 = Some y"
      "timeout x = timeout y"
    have t2: "timeout ses2 = timeout ses" unfolding ses2_def by simp
    show "sid1 = sid2"
    proof (cases "sid1 = sid"; cases "sid2 = sid")
      assume "sid1 = sid" "sid2 = sid" then show ?thesis by simp
    next
      assume a: "sid1 = sid" "sid2 \<noteq> sid"
      then have "map_of (sessions s) sid2 = Some y" "timeout ses = timeout y"
        using m t2 unfolding S by auto
      then show ?thesis using inj[OF Some] a by blast
    next
      assume a: "sid1 \<noteq> sid" "sid2 = sid"
      then have "map_of (sessions s) sid1 = Some x" "timeout x = timeout ses"
        using m t2 unfolding S by auto
      then show ?thesis using inj[OF _ Some] a by blast
    next
      assume "sid1 \<noteq> sid" "sid2 \<noteq> sid"
      then show ?thesis using m inj unfolding S by auto
    qed
  qed
  then show ?thesis unfolding s'_def .
qed

lemma signal_sessions:
  "map_of (sessions (fst (on_signal h sid p s))) sid' = Some x \<Longrightarrow>
   \<exists>y. map_of (sessions s) sid' = Some y \<and> desktop x = desktop y \<and> mobile x = mobile y \<and>
       ready x = ready y \<and> timeout x = timeout y \<and> (ready y \<longrightarrow> x = y)"
  by (auto simp: on_signal_def Let_def AList.update_conv' split: option.splits if_splits)

lemma signal_rest:
  "timers (fst (on_signal h sid p s)) = timers s"
  "next_timer (fst (on_signal h sid p s)) = next_timer s"
  by (auto simp: on_signal_def Let_def split: option.splits)

lemma registry_ok_signal:
  assumes i: "registry_ok s"
  shows "registry_ok (fst (on_signal h sid p s))"
  unfolding registry_ok_def signal_rest
proof (intro conjI allI impI)
  fix t sid' assume "map_of (timers s) t = Some sid'"
  then show "t < next_timer s" using i unfolding registry_ok_def by blast
next
  fix sid' x assume "map_of (sessions (fst (on_signal h sid p s))) sid' = Some x"
  from signal_sessions[OF this] obtain y where y: "map_of (sessions s) sid' = Some y"
    "desktop x = desktop y" "mobile x = mobile y" "ready x = ready y" "timeout x = timeout y"
    "ready y \<longrightarrow> x = y" by blast
  have "session_ok s sid' y" using i y(1) unfolding registry_ok_def by blast
  then show "session_ok (fst (on_signal h sid p s)) sid' x"
    using y(2-) unfolding session_ok_def signal_rest by auto
next
  fix sid1 sid2 x1 x2
  assume m: "map_of (sessions (fst (on_signal h sid p s))) sid1 = Some x1"
    "map_of (sessions (fst (on_signal h sid p s))) sid2 = Some x2" "timeout x1 = timeout x2"
  from signal_sessions[OF m(1)] signal_sessions[OF m(2)] m(3) i
  show "sid1 = sid2" unfolding registry_ok_def by metis
qed

lemma registry_ok_delete: "registry_ok s \<Longrightarrow> registry_ok (s\<lparr>sessions := AList.delete sid (sessions s)\<rparr>)"
  unfolding registry_ok_def
  by (auto simp: AList.delete_conv' session_ok_def split: if_splits)

lemma scan_cases:
  "disconnect_scan h xs s = (s, []) \<or>
   (\<exists>sid out. disconnect_scan h xs s = (s\<lparr>sessions := AList.delete sid (sessions s)\<rparr>, out))"
proof (induction xs)
  case Nil
  show ?case by simp
next
  case (Cons x xs)
  obtain sid ses where x: "x = (sid, ses)" by (cases x)
  show ?case
  proof (cases "desktop ses = h \<or> mobile ses = Some h")
    case True
    then show ?thesis unfolding x by (simp add: Let_def) blast
  next
    case False
    then show ?thesis using Cons unfolding x by simp
  qed
qed

lemma registry_ok_disconnect: "registry_ok s \<Longrightarrow> registry_ok (fst (on_disconnect h s))"
  using scan_cases[of h "sessions s" s] registry_ok_delete[of s]
  unfolding on_disconnect_def by auto

lemma registry_ok_disarm:
  assumes i: "registry_ok s" and t: "map_of (timers s) t = Some sid"
    and r: "\<And>ses. map_of (sessions s) sid = Some ses \<Longrightarrow> ready ses"
  shows "registry_ok (s\<lparr>timers := AList.delete t (timers s)\<rparr>)"
  unfolding registry_ok_def
proof (intro conjI allI impI)
  fix t' sid' assume "map_of (timers (s\<lparr>timers := AList.delete t (timers s)\<rparr>)) t' = Some sid'"
  then show "t' < next_timer (s\<lparr>timers := AList.delete t (timers s)\<rparr>)"
    using i unfolding registry_ok_def by (auto simp: AList.delete_conv' split: if_splits)
next
  fix sid' x assume m: "map_of (sessions (s\<lparr>timers := AList.delete t (timers s)\<rparr>)) sid' = Some x"
  then have ok: "session_ok s sid' x" using i unfolding registry_ok_def by simp
  have "timeout x \<noteq> t" if "\<not> ready x"
  proof
    assume "timeout x = t"
    with ok that t have "sid' = sid" unfolding session_ok_def by simp
    with m r that show False by simp
  qed
  then show "session_ok (s\<lparr>timers := AList.delete t (timers s)\<rparr>) sid' x"
    using ok unfolding session_ok_def by (auto simp: AList.delete_conv')
next
  fix sid1 sid2 x1 x2
  assume "map_of (sessions (s\<lparr>timers := AList.delete t (timers s)\<rparr>)) sid1 = Some x1"
    "map_of (sessions (s\<lparr>timers := AList.delete t (timers s)\<rparr>)) sid2 = Some x2"
    "timeout x1 = timeout x2"
  then show "sid1 = sid2" using i unfolding registry_ok_def by simp
qed

lemma upd_swap:
  "s\<lparr>timers := a, sessions := b\<rparr> = s\<lparr>sessions := b, timers := a\<rparr>"
  by (cases s) simp

lemma registry_ok_fire:
  assumes i: "registry_ok s"
  shows "registry_ok (fst (fire_timer t s))"
proof (cases "map_of (timers s) t")
  case None
  then show ?thesis using i by (simp add: fire_timer_def)
next
  case (Some sid)
  show ?thesis
  proof (cases "map_of (sessions s) sid")
    case None
    then have "registry_ok (s\<lparr>timers := AList.delete t (timers s)\<rparr>)"
      using registry_ok_disarm[OF i Some] by simp
    then show ?thesis using None Some by (simp add: fire_timer_def timeout_callback_def)
  next
    case (Some ses)
    note ses = this
    show ?thesis
    proof (cases "truthy (mobile ses)")
      case True
      then have "ready ses" using i ses unfolding registry_ok_def session_ok_def by blast
      then have "registry_ok (s\<lparr>timers := AList.delete t (timers s)\<rparr>)"
        using registry_ok_disarm[OF i \<open>map_of (timers s) t = Some sid\<close>] ses by simp
      then show ?thesis using True ses \<open>map_of (timers s) t = Some sid\<close>
        by (simp add: fire_timer_def timeout_callback_def)
    next
      case False
      have i1: "registry_ok (s\<lparr>sessions := AList.delete sid (sessions s)\<rparr>)" by (rule registry_ok_delete[OF i])
      have "registry_ok (s\<lparr>sessions := AList.delete sid (sessions s)\<rparr>
                  \<lparr>timers := AList.delete t (timers (s\<lparr>sessions := AList.delete sid (sessions s)\<rparr>))\<rparr>)"
        by (rule registry_ok_disarm[OF i1, where sid = sid])
           (use \<open>map_of (timers s) t = Some sid\<close> in \<open>simp_all add: AList.delete_conv'\<close>)
      then show ?thesis using False ses \<open>map_of (timers s) t = Some sid\<close>
        by (simp add: fire_timer_def timeout_callback_def upd_swap)
    qed
  qed
qed

lemma registry_ok_step: "registry_ok s \<Longrightarrow> wf_event e \<Longrightarrow> registry_ok (fst (step e s))"
  by (cases e) (simp_all add: registry_ok_create registry_ok_join registry_ok_signal registry_ok_disconnect registry_ok_fire)

lemma registry_ok_run: "registry_ok s \<Longrightarrow> list_all wf_event es \<Longrightarrow> registry_ok (run es s)"
  by (induction es arbitrary: s) (simp_all add: registry_ok_step)

lemma distinct_step: "distinct (map fst (sessions s)) \<Longrightarrow> distinct (map fst (sessions (fst (step e s))))"
proof (cases e)
  case (Disconnect h)
  then show "distinct (map fst (sessions s)) \<Longrightarrow> ?thesis"
    using scan_cases[of h "sessions s" s]
    by (auto simp: on_disconnect_def AList.distinct_delete)
qed (auto simp: on_create_session_def on_join_session_def on_signal_def fire_timer_def
      timeout_callback_def Let_def AList.distinct_update AList.distinct_delete
      split: option.splits prod.splits if_splits)

lemma distinct_run: "distinct (map fst (sessions s)) \<Longrightarrow> distinct (map fst (sessions (run es s)))"
  by (induction es arbitrary: s) (simp_all add: distinct_step)

lemma distinct_reach: "distinct (map fst (sessions (run es init)))"
  by (rule distinct_run) (simp add: init_def)

lemma registry_ok_reach: "list_all wf_event es \<Longrightarrow> registry_ok (run es init)"
  by (rule registry_ok_run[OF registry_ok_init])

lemma signal_known:
  "map_of (sessions s) sid = Some ses \<Longrightarrow>
   on_signal h sid p s =
     (if \<not> ready ses
      then (s\<lparr>sessions := AList.update sid
               (ses\<lparr>pendingSignals := pendingSignals ses @
                  [\<lparr>targetId = (if h = desktop ses then mobile ses else Some (desktop ses)),
                    data = p\<rparr>]\<rparr>) (sessions s)\<rparr>, [])
      else if truthy (if h = desktop ses then mobile ses else Some (desktop ses))
           then (s, [(if h = desktop ses then mobile ses else Some (desktop ses), SignalMsg p)])
           else (s, []))"
  by (simp add: on_signal_def Let_def)

lemma scan_find_Some:
  "List.find (participant h) xs = Some (sid, ses) \<Longrightarrow>
   disconnect_scan h xs s =
     (s\<lparr>sessions := AList.delete sid (sessions s)\<rparr>,
      if truthy (peer_of h ses) then [(peer_of h ses, PeerDisconnected)] else [])"
  by (induction xs) (auto simp: participant_def peer_of_def Let_def split: if_splits)

lemma step_mobile:
  assumes "map_of (sessions s) sid = Some ses"
    and "map_of (sessions (fst (step e s))) sid = Some ses'"
    and "\<forall>h'. e \<noteq> JoinSession h' sid" and "\<forall>h' now. e \<noteq> CreateSession h' sid now"
  shows "mobile ses' = mobile ses"
proof (cases e)
  case (CreateSession h k now)
  then show ?thesis using assms by (auto simp: create_sessions split: if_splits)
next
  case (JoinSession h k)
  then have "k \<noteq> sid" using assms(3) by auto
  then show ?thesis using assms(1,2) JoinSession
    by (cases "map_of (sessions s) k") (auto simp: join_known join_unknown AList.update_conv')
next
  case (Signal h k p)
  then show ?thesis using assms(1) signal_sessions[of h k p s sid ses'] assms(2) by auto
next
  case (Disconnect h)
  then show ?thesis using assms(1,2) scan_cases[of h "sessions s" s]
    by (auto simp: on_disconnect_def AList.delete_conv' split: if_splits)
next
  case (TimerFires t)
  then show ?thesis using assms(1,2)
    by (auto simp: fire_timer_def timeout_callback_def AList.delete_conv' split: option.splits if_splits)
qed

lemma update_fresh: "k \<notin> fst ` set xs \<Longrightarrow> AList.update k v xs = xs @ [(k, v)]"
  by (induction xs) auto

lemma find_append_Some: "List.find P xs = Some x \<Longrightarrow> List.find P (xs @ ys) = Some x"
  by (induction xs) (auto split: if_splits)

lemma find_key: "List.find P xs = Some (k, v) \<Longrightarrow> k \<in> fst ` set xs"
  by (induction xs) (auto split: if_splits)

lemma length_delete_distinct:
  "distinct (map fst xs) \<Longrightarrow> k \<in> fst ` set xs \<Longrightarrow> length (AList.delete k xs) = length xs - 1"
proof (induction xs)
  case Nil
  then show ?case by simp
next
  case (Cons x xs)
  show ?case
  proof (cases "fst x = k")
    case True
    then have "k \<notin> fst ` set xs" using Cons.prems(1) by auto
    then show ?thesis using True by simp
  next
    case False
    then have "k \<in> fst ` set xs" using Cons.prems(2) by auto
    then have "length (AList.delete k xs) = length xs - 1" "xs \<noteq> []"
      using Cons by auto
    then show ?thesis using False by (cases xs) auto
  qed
qed

section \<open>Joining\<close>

text \<open>
  Claim C1 says that \<open>mobile\<close> is set at most once per session, a second
  \<^verbatim>\<open>join-session\<close> on the same identifier being rejected or ignored. The handler has no such
  test: after the desktop \<open>A\<close> creates \<open>S\<close> and \<open>B\<close> joins, a join by \<open>C\<close> is answered with
  \<^verbatim>\<open>connection-successful\<close> and replaces \<open>B\<close> by \<open>C\<close>.
\<close>

theorem second_join_overwrites_mobile:
  "map_option mobile (map_of (sessions (run [CreateSession ''A'' ''S'' 0, JoinSession ''B'' ''S''] init)) ''S'')
     = Some (Some ''B'') \<and>
   map_option mobile (map_of (sessions (run [CreateSession ''A'' ''S'' 0, JoinSession ''B'' ''S'',
       JoinSession ''C'' ''S''] init)) ''S'') = Some (Some ''C'') \<and>
   snd (on_join_session ''C'' ''S'' (run [CreateSession ''A'' ''S'' 0, JoinSession ''B'' ''S''] init))
     = [(Some ''A'', MobileConnected), (Some ''C'', ConnectionSuccessful)]"
  by (simp add: handler_defs)

text \<open>
  Claim C1, amended: every \<^verbatim>\<open>join-session\<close> on a registered identifier sets \<open>mobile\<close> to the
  requester's handle, whatever it held before (the last join wins), and no other event
  changes the \<open>mobile\<close> of a session that stays registered; a \<^verbatim>\<open>create-session\<close> that draws
  the same identifier again is left aside.
\<close>

theorem join_sets_mobile:
  "map_of (sessions s) sid = Some ses \<Longrightarrow>
   map_option mobile (map_of (sessions (fst (on_join_session h sid s))) sid) = Some (Some h) \<and>
   (\<forall>e ses'. (\<forall>h'. e \<noteq> JoinSession h' sid) \<and> (\<forall>h' now. e \<noteq> CreateSession h' sid now) \<and>
       map_of (sessions (fst (step e s))) sid = Some ses' \<longrightarrow> mobile ses' = mobile ses)"
proof (intro conjI allI impI)
  assume m: "map_of (sessions s) sid = Some ses"
  show "map_option mobile (map_of (sessions (fst (on_join_session h sid s))) sid) = Some (Some h)"
    using m by (simp add: join_known AList.update_conv')
  fix e ses'
  assume "(\<forall>h'. e \<noteq> JoinSession h' sid) \<and> (\<forall>h' now. e \<noteq> CreateSession h' sid now) \<and>
       map_of (sessions (fst (step e s))) sid = Some ses'"
  then show "mobile ses' = mobile ses" using step_mobile[OF m, of e ses'] by blast
qed

theorem join_sets_mobile_witness:
  "map_of (sessions (run [CreateSession ''A'' ''S'' 0, JoinSession ''B'' ''S''] init)) ''S'' =
     Some \<lparr>desktop = ''A'', mobile = Some ''B'', ready = True, pendingSignals = [],
           created = 0, timeout = 0\<rparr> \<and>
   map_option mobile (map_of (sessions (fst (on_join_session ''C'' ''S''
     (run [CreateSession ''A'' ''S'' 0, JoinSession ''B'' ''S''] init)))) ''S'') = Some (Some ''C'') \<and>
   map_option mobile (map_of (sessions (fst (step (Signal ''A'' ''S'' ''offer'')
     (run [CreateSession ''A'' ''S'' 0, JoinSession ''B'' ''S''] init)))) ''S'') = Some (Some ''B'')"
proof -
  have m: "map_of (sessions (run [CreateSession ''A'' ''S'' 0, JoinSession ''B'' ''S''] init)) ''S'' =
     Some \<lparr>desktop = ''A'', mobile = Some ''B'', ready = True, pendingSignals = [],
           created = 0, timeout = 0\<rparr>"
    by (simp add: handler_defs)
  have k: "map_option mobile (map_of (sessions (fst (step (Signal ''A'' ''S'' ''offer'')
     (run [CreateSession ''A'' ''S'' 0, JoinSession ''B'' ''S''] init)))) ''S'') = Some (Some ''B'')"
    by (simp add: handler_defs)
  show ?thesis using m k join_sets_mobile[OF m, of "''C''"] by simp
qed

text \<open>
  The target of a buffered signal is resolved when it is buffered (line 121), and a session
  that is not ready has no mobile handle yet. So in every reachable state a buffered entry
  is addressed to \<^verbatim>\<open>null\<close> (the desktop sent it) or to the desktop (anyone else sent it), and
  the flush of a join never addresses a signal to the joiner, unless the joiner is the
  desktop itself.
\<close>

lemma pending_targets_step:
  assumes ok: "registry_ok s"
    and P: "\<And>sid ses p. map_of (sessions s) sid = Some ses \<Longrightarrow> p \<in> set (pendingSignals ses) \<Longrightarrow>
              targetId p = None \<or> targetId p = Some (desktop ses)"
    and m: "map_of (sessions (fst (step e s))) sid = Some ses" and p: "p \<in> set (pendingSignals ses)"
  shows "targetId p = None \<or> targetId p = Some (desktop ses)"
proof (cases e)
  case (CreateSession h k now)
  then show ?thesis using m p P[of sid ses p] by (auto simp: create_sessions split: if_splits)
next
  case (JoinSession h k)
  then show ?thesis using m p P[of sid ses p]
    by (cases "map_of (sessions s) k")
       (auto simp: join_known join_unknown AList.update_conv' split: if_splits)
next
  case (Signal h k x)
  show ?thesis
  proof (cases "map_of (sessions s) k")
    case None
    then show ?thesis using Signal m p P[of sid ses p] by (simp add: on_signal_def)
  next
    case (Some ses0)
    show ?thesis
    proof (cases "ready ses0 \<or> sid \<noteq> k")
      case True
      then have "map_of (sessions s) sid = Some ses"
        using Signal m Some by (auto simp: signal_known AList.update_conv' split: if_splits)
      then show ?thesis using p P by blast
    next
      case False
      then have r: "\<not> ready ses0" and k: "sid = k" by auto
      have "session_ok s k ses0" using ok Some unfolding registry_ok_def by blast
      then have mn: "mobile ses0 = None" using r unfolding session_ok_def by (auto split: if_splits)
      have ses: "ses = ses0\<lparr>pendingSignals := pendingSignals ses0 @
          [\<lparr>targetId = (if h = desktop ses0 then mobile ses0 else Some (desktop ses0)), data = x\<rparr>]\<rparr>"
        using Signal m Some r k by (simp add: signal_known AList.update_conv')
      show ?thesis
      proof (cases "p \<in> set (pendingSignals ses0)")
        case True
        then show ?thesis using P[OF Some True] unfolding ses by simp
      next
        case False
        then have "p = \<lparr>targetId = (if h = desktop ses0 then mobile ses0 else Some (desktop ses0)),
            data = x\<rparr>"
          using p unfolding ses by simp
        then show ?thesis using mn unfolding ses by (cases "h = desktop ses0") simp_all
      qed
    qed
  qed
next
  case (Disconnect h)
  then show ?thesis using m p P[of sid ses p] scan_cases[of h "sessions s" s]
    by (auto simp: on_disconnect_def AList.delete_conv' split: if_splits)
next
  case (TimerFires t)
  then show ?thesis using m p P[of sid ses p]
    by (auto simp: fire_timer_def timeout_callback_def AList.delete_conv' split: option.splits if_splits)
qed

lemma pending_targets_run:
  assumes "list_all wf_event evs" and "registry_ok s"
    and "\<And>sid ses p. map_of (sessions s) sid = Some ses \<Longrightarrow> p \<in> set (pendingSignals ses) \<Longrightarrow>
              targetId p = None \<or> targetId p = Some (desktop ses)"
    and "map_of (sessions (run evs s)) sid = Some ses" and "p \<in> set (pendingSignals ses)"
  shows "targetId p = None \<or> targetId p = Some (desktop ses)"
  using assms
proof (induction evs arbitrary: s)
  case Nil
  then show ?case by simp
next
  case (Cons e evs)
  have ok': "registry_ok (fst (step e s))" using Cons.prems(1,2) by (simp add: registry_ok_step)
  show ?case
  proof (rule Cons.IH[of "fst (step e s)"])
    show "list_all wf_event evs" using Cons.prems(1) by simp
    show "registry_ok (fst (step e s))" by (rule ok')
    show "map_of (sessions (run evs (fst (step e s)))) sid = Some ses" using Cons.prems(4) by simp
    show "p \<in> set (pendingSignals ses)" by (rule Cons.prems(5))
    fix sid' ses' p'
    assume "map_of (sessions (fst (step e s))) sid' = Some ses'" "p' \<in> set (pendingSignals ses')"
    then show "targetId p' = None \<or> targetId p' = Some (desktop ses')"
      using pending_targets_step[OF Cons.prems(2)] Cons.prems(3) by blast
  qed
qed

lemma flush_never_reaches_joiner:
  assumes "list_all wf_event evs" and "s = run evs init"
    and "map_of (sessions s) sid = Some ses" and "h \<noteq> desktop ses"
  shows "(Some h, SignalMsg x) \<notin> set (snd (on_join_session h sid s))"
proof -
  have t: "targetId p = None \<or> targetId p = Some (desktop ses)" if "p \<in> set (pendingSignals ses)" for p
    using pending_targets_run[OF assms(1) registry_ok_init _ _ that, of sid] assms(2,3)
    by (simp add: init_def)
  have "fst e \<noteq> Some h" if "e \<in> set (flush_pending (pendingSignals ses))" for e
  proof -
    from that obtain p where "p \<in> set (pendingSignals ses)" "fst e = targetId p"
      by (auto simp: flush_pending_def)
    then show ?thesis using t[of p] assms(4) by auto
  qed
  then have "(Some h, SignalMsg x) \<notin> set (flush_pending (pendingSignals ses))" by fastforce
  then show ?thesis using assms(3) by (simp add: join_known)
qed

text \<open>
  Claim C3 says that a join delivers each of the buffered signals to its target handle. For
  a signal the desktop relayed before the join the stored \<open>targetId\<close> is \<^verbatim>\<open>null\<close>, and the
  flush emits it with \<^verbatim>\<open>io.to(null)\<close>: after the desktop \<open>A\<close> creates \<open>S\<close> and relays an offer,
  the offer is buffered with target \<^verbatim>\<open>null\<close>, and the join of \<open>B\<close> sends \<open>B\<close> only
  \<^verbatim>\<open>connection-successful\<close>; the offer is addressed to no handle, and the buffer is emptied.
\<close>

theorem join_flush_addresses_null:
  "on_signal ''A'' ''S'' ''offer'' (run [CreateSession ''A'' ''S'' 0] init) =
     (\<lparr>sessions = [(''S'', \<lparr>desktop = ''A'', mobile = None, ready = False,
           pendingSignals = [\<lparr>targetId = None, data = ''offer''\<rparr>],
           created = 0, timeout = 0\<rparr>)],
       timers = [(0, ''S'')], next_timer = 1\<rparr>, []) \<and>
   on_join_session ''B'' ''S'' (run [CreateSession ''A'' ''S'' 0, Signal ''A'' ''S'' ''offer''] init) =
     (\<lparr>sessions = [(''S'', \<lparr>desktop = ''A'', mobile = Some ''B'', ready = True,
           pendingSignals = [], created = 0, timeout = 0\<rparr>)],
       timers = [], next_timer = 1\<rparr>,
      [(Some ''A'', MobileConnected), (Some ''B'', ConnectionSuccessful),
       (None, SignalMsg ''offer'')])"
  by (simp add: handler_defs)

text \<open>
  Claim C7: for an identifier that is not registered, \<^verbatim>\<open>join-session\<close> emits
  \<^verbatim>\<open>session-not-found\<close> to the requester and \<^verbatim>\<open>signal\<close> emits nothing; both leave the whole
  state as it was.
\<close>

theorem unknown_session:
  "map_of (sessions s) sid = None \<Longrightarrow>
   on_join_session h sid s = (s, [(Some h, SessionNotFound)]) \<and> on_signal h sid p s = (s, [])"
  by (simp add: on_join_session_def on_signal_def)

theorem unknown_session_witness:
  "map_of (sessions init) ''S'' = None \<and>
   on_join_session ''B'' ''S'' init = (init, [(Some ''B'', SessionNotFound)]) \<and>
   on_signal ''B'' ''S'' ''offer'' init = (init, [])"
proof -
  have m: "map_of (sessions init) ''S'' = None" by (simp add: init_def)
  show ?thesis using m unknown_session[OF m, of "''B''" "''offer''"] by simp
qed

section \<open>Relaying signals\<close>

text \<open>
  Claim C4: a \<^verbatim>\<open>signal\<close> on a registered session that is not ready appends the resolved
  target and the payload to \<open>pendingSignals\<close> and emits nothing, also when the resolved target
  is a handle (the sender is not the desktop): only \<open>ready\<close> decides.
\<close>

theorem signal_buffered_until_ready:
  "map_of (sessions s) sid = Some ses \<Longrightarrow> \<not> ready ses \<Longrightarrow>
   on_signal h sid p s =
     (s\<lparr>sessions := AList.update sid
          (ses\<lparr>pendingSignals := pendingSignals ses @
             [\<lparr>targetId = (if h = desktop ses then mobile ses else Some (desktop ses)),
               data = p\<rparr>]\<rparr>) (sessions s)\<rparr>, [])"
  by (simp add: signal_known)

theorem signal_buffered_until_ready_witness:
  "map_of (sessions (run [CreateSession ''A'' ''S'' 0] init)) ''S'' =
     Some \<lparr>desktop = ''A'', mobile = None, ready = False, pendingSignals = [],
           created = 0, timeout = 0\<rparr> \<and>
   on_signal ''B'' ''S'' ''candidate'' (run [CreateSession ''A'' ''S'' 0] init) =
     (\<lparr>sessions = [(''S'', \<lparr>desktop = ''A'', mobile = None, ready = False,
           pendingSignals = [\<lparr>targetId = Some ''A'', data = ''candidate''\<rparr>],
           created = 0, timeout = 0\<rparr>)],
       timers = [(0, ''S'')], next_timer = 1\<rparr>, [])"
proof -
  have m: "map_of (sessions (run [CreateSession ''A'' ''S'' 0] init)) ''S'' =
     Some \<lparr>desktop = ''A'', mobile = None, ready = False, pendingSignals = [],
           created = 0, timeout = 0\<rparr>"
    by (simp add: handler_defs)
  have r: "\<not> ready \<lparr>desktop = ''A'', mobile = None, ready = False, pendingSignals = [],
           created = 0, timeout = 0\<rparr>" by simp
  show ?thesis
    using m signal_buffered_until_ready[OF m r, of "''B''" "''candidate''"]
    by (simp add: handler_defs)
qed

text \<open>
  Claim C9: in a reachable state, a \<^verbatim>\<open>signal\<close> on a registered session from any handle other
  than the session's desktop resolves its target to the desktop: the payload is delivered
  to the desktop when the session is ready and buffered for the desktop otherwise. The
  handler does not look at whether the sender is the session's mobile, so a third party
  gets exactly what the mobile would get.
\<close>

theorem signal_from_non_desktop:
  assumes "list_all wf_event evs" and "s = run evs init"
    and "map_of (sessions s) sid = Some ses" and "h \<noteq> desktop ses"
  shows "on_signal h sid p s =
     (if ready ses then (s, [(Some (desktop ses), SignalMsg p)])
      else (s\<lparr>sessions := AList.update sid
               (ses\<lparr>pendingSignals := pendingSignals ses @
                  [\<lparr>targetId = Some (desktop ses), data = p\<rparr>]\<rparr>) (sessions s)\<rparr>, []))
     \<and> (\<forall>m. mobile ses = Some m \<and> m \<noteq> desktop ses \<longrightarrow> on_signal h sid p s = on_signal m sid p s)"
proof -
  have "registry_ok s" using assms(1,2) registry_ok_reach by simp
  then have "desktop ses \<noteq> []" using assms(3) unfolding registry_ok_def session_ok_def by blast
  then show ?thesis using assms(3,4) by (simp add: signal_known)
qed

theorem signal_from_non_desktop_witness:
  "list_all wf_event [CreateSession ''A'' ''S'' 0, JoinSession ''B'' ''S''] \<and>
   map_of (sessions (run [CreateSession ''A'' ''S'' 0, JoinSession ''B'' ''S''] init)) ''S'' =
     Some \<lparr>desktop = ''A'', mobile = Some ''B'', ready = True, pendingSignals = [],
           created = 0, timeout = 0\<rparr> \<and>
   on_signal ''C'' ''S'' ''candidate'' (run [CreateSession ''A'' ''S'' 0, JoinSession ''B'' ''S''] init) =
     (run [CreateSession ''A'' ''S'' 0, JoinSession ''B'' ''S''] init, [(Some ''A'', SignalMsg ''candidate'')])"
proof -
  have a: "list_all wf_event [CreateSession ''A'' ''S'' 0, JoinSession ''B'' ''S'']" by simp
  have m: "map_of (sessions (run [CreateSession ''A'' ''S'' 0, JoinSession ''B'' ''S''] init)) ''S'' =
     Some \<lparr>desktop = ''A'', mobile = Some ''B'', ready = True, pendingSignals = [],
           created = 0, timeout = 0\<rparr>"
    by (simp add: handler_defs)
  have n: "''C'' \<noteq> desktop \<lparr>desktop = ''A'', mobile = Some ''B'', ready = True, pendingSignals = [],
           created = 0, timeout = 0\<rparr>" by simp
  show ?thesis using a m signal_from_non_desktop[OF a refl m n, of "''candidate''"] by simp
qed

section \<open>The expiry timer\<close>

text \<open>
  Claim C8: in a reachable state, a registered session that was never joined (\<open>mobile\<close> is
  still \<^verbatim>\<open>null\<close>) has its expiry timer armed, and when that timer fires the desktop is sent
  \<^verbatim>\<open>session-timeout\<close> and the session is deleted: its identifier is unknown to the lookups
  that follow, so a join on it is answered \<^verbatim>\<open>session-not-found\<close>.
\<close>

theorem expiry_deletes_unjoined:
  assumes "list_all wf_event evs" and "s = run evs init"
    and "map_of (sessions s) sid = Some ses" and "mobile ses = None"
  shows "map_of (timers s) (timeout ses) = Some sid \<and>
         snd (fire_timer (timeout ses) s) = [(Some (desktop ses), SessionTimeout)] \<and>
         sessions (fst (fire_timer (timeout ses) s)) = AList.delete sid (sessions s) \<and>
         map_of (sessions (fst (fire_timer (timeout ses) s))) sid = None \<and>
         snd (on_join_session h sid (fst (fire_timer (timeout ses) s))) = [(Some h, SessionNotFound)]"
proof -
  have "registry_ok s" using assms(1,2) registry_ok_reach by simp
  then have "session_ok s sid ses" using assms(3) unfolding registry_ok_def by blast
  then have t: "map_of (timers s) (timeout ses) = Some sid"
    using assms(4) unfolding session_ok_def by (auto split: if_splits)
  have f: "fire_timer (timeout ses) s =
      (s\<lparr>timers := AList.delete (timeout ses) (timers s), sessions := AList.delete sid (sessions s)\<rparr>,
       [(Some (desktop ses), SessionTimeout)])"
    using t assms(3,4) by (simp add: fire_timer_def timeout_callback_def)
  show ?thesis unfolding f using t by (simp add: AList.delete_conv' join_unknown)
qed

theorem expiry_deletes_unjoined_witness:
  "list_all wf_event [CreateSession ''A'' ''S'' 0] \<and>
   map_of (sessions (run [CreateSession ''A'' ''S'' 0] init)) ''S'' =
     Some \<lparr>desktop = ''A'', mobile = None, ready = False, pendingSignals = [],
           created = 0, timeout = 0\<rparr> \<and>
   fire_timer 0 (run [CreateSession ''A'' ''S'' 0] init) =
     (\<lparr>sessions = [], timers = [], next_timer = 1\<rparr>, [(Some ''A'', SessionTimeout)])"
proof -
  have a: "list_all wf_event [CreateSession ''A'' ''S'' 0]" by simp
  have m: "map_of (sessions (run [CreateSession ''A'' ''S'' 0] init)) ''S'' =
     Some \<lparr>desktop = ''A'', mobile = None, ready = False, pendingSignals = [],
           created = 0, timeout = 0\<rparr>"
    by (simp add: handler_defs)
  have n: "mobile \<lparr>desktop = ''A'', mobile = None, ready = False, pendingSignals = [],
           created = 0, timeout = 0\<rparr> = None" by simp
  show ?thesis using a m expiry_deletes_unjoined[OF a refl m n, of "''B''"] by (simp add: handler_defs)
qed

text \<open>
  Claim C5: in a reachable state where the identifier \<open>sid\<close> is not registered, or its
  session is ready, the expiry callback for \<open>sid\<close> does nothing: it emits no message and
  returns the state as it is. So the firing of a timer armed for \<open>sid\<close> only disarms that
  timer, and no firing of any timer changes what \<open>sid\<close> maps to: a ready session is never
  deleted by a timer.
\<close>

theorem stale_timer_noop:
  assumes "list_all wf_event evs" and "s = run evs init"
    and "map_of (sessions s) sid = None \<or> (\<exists>ses. map_of (sessions s) sid = Some ses \<and> ready ses)"
  shows "timeout_callback sid s = (s, []) \<and>
         (\<forall>t. map_of (timers s) t = Some sid \<longrightarrow>
            fire_timer t s = (s\<lparr>timers := AList.delete t (timers s)\<rparr>, [])) \<and>
         (\<forall>t. map_of (sessions (fst (fire_timer t s))) sid = map_of (sessions s) sid)"
proof -
  have "registry_ok s" using assms(1,2) registry_ok_reach by simp
  then have r: "\<And>ses. map_of (sessions s) sid = Some ses \<Longrightarrow> ready ses \<Longrightarrow> truthy (mobile ses)"
    unfolding registry_ok_def session_ok_def by blast
  have c: "timeout_callback sid s' = (s', [])" if "sessions s' = sessions s" for s'
    using r assms(3) that by (auto simp: timeout_callback_def split: option.splits)
  have 1: "timeout_callback sid s = (s, [])" by (rule c) simp
  have 2: "fire_timer t s = (s\<lparr>timers := AList.delete t (timers s)\<rparr>, [])"
    if "map_of (timers s) t = Some sid" for t
    using that c[of "s\<lparr>timers := AList.delete t (timers s)\<rparr>"] by (simp add: fire_timer_def)
  have 3: "map_of (sessions (fst (fire_timer t s))) sid = map_of (sessions s) sid" for t
  proof (cases "map_of (timers s) t")
    case None
    then show ?thesis by (simp add: fire_timer_def)
  next
    case (Some k)
    show ?thesis
    proof (cases "k = sid")
      case True
      then show ?thesis using 2[of t] Some by simp
    next
      case False
      then show ?thesis using Some
        by (auto simp: fire_timer_def timeout_callback_def split: option.splits)
    qed
  qed
  show ?thesis using 1 2 3 by blast
qed

theorem stale_timer_noop_witness:
  "list_all wf_event [CreateSession ''A'' ''S'' 0, Disconnect ''A''] \<and>
   map_of (sessions (run [CreateSession ''A'' ''S'' 0, Disconnect ''A''] init)) ''S'' = None \<and>
   map_of (timers (run [CreateSession ''A'' ''S'' 0, Disconnect ''A''] init)) 0 = Some ''S'' \<and>
   fire_timer 0 (run [CreateSession ''A'' ''S'' 0, Disconnect ''A''] init) =
     (\<lparr>sessions = [], timers = [], next_timer = 1\<rparr>, [])"
proof -
  have a: "list_all wf_event [CreateSession ''A'' ''S'' 0, Disconnect ''A'']" by simp
  have m: "map_of (sessions (run [CreateSession ''A'' ''S'' 0, Disconnect ''A''] init)) ''S'' = None"
    by (simp add: handler_defs)
  have t: "map_of (timers (run [CreateSession ''A'' ''S'' 0, Disconnect ''A''] init)) 0 = Some ''S''"
    by (simp add: handler_defs)
  show ?thesis
    using a m t stale_timer_noop[OF a refl disjI1[OF m]] by (simp add: handler_defs)
qed

section \<open>Disconnecting\<close>

text \<open>
  Claim C2 says that the disconnect handler cancels the pending expiry timer of the session
  it deletes, so that no armed timer refers to an unregistered session. The handler never
  calls \<^verbatim>\<open>clearTimeout\<close>: after the desktop \<open>A\<close> creates \<open>S\<close> and disconnects, \<open>S\<close> is gone and
  its timer is still armed.
\<close>

theorem disconnect_leaves_timer_armed:
  "run [CreateSession ''A'' ''S'' 0, Disconnect ''A''] init =
     \<lparr>sessions = [], timers = [(0, ''S'')], next_timer = 1\<rparr>"
  by (simp add: handler_defs)

text \<open>
  Claim C2, amended: the disconnect handler leaves every armed timer armed. A timer whose
  session the disconnect has deleted fires later as a no-op, by the callback's own test
  \<^verbatim>\<open>sessions.has(sessionId)\<close>: it is disarmed, no message is emitted and no session is
  deleted, so there is no stray timeout.
\<close>

theorem disconnect_keeps_timers:
  "timers (fst (on_disconnect h s)) = timers s \<and>
   (\<forall>t sid. map_of (timers s) t = Some sid \<and> map_of (sessions (fst (on_disconnect h s))) sid = None \<longrightarrow>
      fire_timer t (fst (on_disconnect h s)) =
        ((fst (on_disconnect h s))\<lparr>timers := AList.delete t (timers s)\<rparr>, []))"
proof -
  have t: "timers (fst (on_disconnect h s)) = timers s"
    using scan_cases[of h "sessions s" s] by (auto simp: on_disconnect_def)
  show ?thesis unfolding t
    using t by (auto simp: fire_timer_def timeout_callback_def)
qed

theorem disconnect_keeps_timers_witness:
  "map_of (timers (run [CreateSession ''A'' ''S'' 0] init)) 0 = Some ''S'' \<and>
   map_of (sessions (fst (on_disconnect ''A'' (run [CreateSession ''A'' ''S'' 0] init)))) ''S'' = None \<and>
   timers (fst (on_disconnect ''A'' (run [CreateSession ''A'' ''S'' 0] init))) = [(0, ''S'')] \<and>
   fire_timer 0 (fst (on_disconnect ''A'' (run [CreateSession ''A'' ''S'' 0] init))) =
     (\<lparr>sessions = [], timers = [], next_timer = 1\<rparr>, [])"
proof -
  have a: "map_of (timers (run [CreateSession ''A'' ''S'' 0] init)) 0 = Some ''S''"
    by (simp add: handler_defs)
  have b: "map_of (sessions (fst (on_disconnect ''A'' (run [CreateSession ''A'' ''S'' 0] init)))) ''S'' = None"
    by (simp add: handler_defs)
  show ?thesis
    using a b disconnect_keeps_timers[of "''A''" "run [CreateSession ''A'' ''S'' 0] init"]
    by (simp add: handler_defs)
qed

text \<open>
  Claim C6 says that a disconnect of a participant deletes every session it takes part in
  and notifies that session's other participant. The loop ends at its first match: when
  \<open>A\<close> is the desktop of \<open>S1\<close> and of \<open>S2\<close>, and \<open>B\<close> has joined \<open>S2\<close>, the disconnect of \<open>A\<close>
  deletes \<open>S1\<close> only; \<open>S2\<close> stays registered and \<open>B\<close> is sent nothing.
\<close>

theorem disconnect_skips_later_session:
  "map_option desktop (map_of (sessions (run [CreateSession ''A'' ''S1'' 0, CreateSession ''A'' ''S2'' 1,
      JoinSession ''B'' ''S2'', Disconnect ''A''] init)) ''S2'') = Some ''A'' \<and>
   snd (on_disconnect ''A'' (run [CreateSession ''A'' ''S1'' 0, CreateSession ''A'' ''S2'' 1,
      JoinSession ''B'' ''S2''] init)) = []"
  by (simp add: handler_defs)

text \<open>
  Claim C6, amended: in a reachable state, a disconnect of \<open>h\<close> deletes the first session in
  insertion order, created or ready, that has \<open>h\<close> as its desktop or its mobile; it sends
  exactly one \<^verbatim>\<open>peer-disconnected\<close>, to that session's other participant, when that handle is
  present, and nothing when it is absent; the scan stops there, and every other session is
  left as it was.
\<close>

theorem disconnect_first_match:
  assumes "list_all wf_event evs" and "s = run evs init"
    and "List.find (participant h) (sessions s) = Some (sid, ses)"
  shows "on_disconnect h s =
           (s\<lparr>sessions := AList.delete sid (sessions s)\<rparr>,
            case peer_of h ses of None \<Rightarrow> [] | Some peer \<Rightarrow> [(Some peer, PeerDisconnected)]) \<and>
         map_of (sessions (fst (on_disconnect h s))) sid = None \<and>
         (\<forall>k. k \<noteq> sid \<longrightarrow> map_of (sessions (fst (on_disconnect h s))) k = map_of (sessions s) k)"
proof -
  have i: "registry_ok s" using assms(1,2) registry_ok_reach by simp
  have d: "distinct (map fst (sessions s))" using assms(2) distinct_reach by simp
  have "(sid, ses) \<in> set (sessions s)" using assms(3) by (auto simp: find_Some_iff in_set_conv_nth)
  then have "map_of (sessions s) sid = Some ses" using d by simp
  then have ok: "session_ok s sid ses" using i unfolding registry_ok_def by blast
  have "truthy (peer_of h ses) \<longleftrightarrow> peer_of h ses \<noteq> None"
    using ok unfolding session_ok_def peer_of_def by (cases "mobile ses") (auto split: if_splits)
  then show ?thesis
    using scan_find_Some[OF assms(3), of s]
    by (auto simp: on_disconnect_def AList.delete_conv' split: option.splits)
qed

theorem disconnect_first_match_witness:
  "list_all wf_event [CreateSession ''A'' ''S'' 0, JoinSession ''B'' ''S''] \<and>
   List.find (participant ''A'') (sessions (run [CreateSession ''A'' ''S'' 0, JoinSession ''B'' ''S''] init)) =
     Some (''S'', \<lparr>desktop = ''A'', mobile = Some ''B'', ready = True, pendingSignals = [],
           created = 0, timeout = 0\<rparr>) \<and>
   on_disconnect ''A'' (run [CreateSession ''A'' ''S'' 0, JoinSession ''B'' ''S''] init) =
     (\<lparr>sessions = [], timers = [], next_timer = 1\<rparr>, [(Some ''B'', PeerDisconnected)])"
proof -
  have a: "list_all wf_event [CreateSession ''A'' ''S'' 0, JoinSession ''B'' ''S'']" by simp
  have f: "List.find (participant ''A'') (sessions (run [CreateSession ''A'' ''S'' 0, JoinSession ''B'' ''S''] init)) =
     Some (''S'', \<lparr>desktop = ''A'', mobile = Some ''B'', ready = True, pendingSignals = [],
           created = 0, timeout = 0\<rparr>)"
    by (simp add: handler_defs)
  show ?thesis using a f disconnect_first_match[OF a refl f] by (simp add: handler_defs)
qed

section \<open>Creating\<close>

text \<open>
  Claim C10: \<^verbatim>\<open>create-session\<close> does not look at the requester's handle. With a fresh
  identifier it appends a new session to the registry and emits \<^verbatim>\<open>session-created\<close>, also
  when the requester already takes part in a registered session, so one handle can belong
  to several sessions. A disconnect of that handle then deletes exactly one session, the
  first in insertion order that it takes part in; the others, the new one among them, stay
  registered.
\<close>

theorem create_unrestricted:
  assumes "distinct (map fst (sessions s))" and "sid \<notin> fst ` set (sessions s)"
    and "new = \<lparr>desktop = h, mobile = None, ready = False, pendingSignals = [],
                created = now, timeout = next_timer s\<rparr>"
  shows "on_create_session h sid now s =
           (s\<lparr>sessions := sessions s @ [(sid, new)], timers := timers s @ [(next_timer s, sid)],
              next_timer := Suc (next_timer s)\<rparr>, [(Some h, SessionCreated sid)]) \<and>
         (\<forall>sid1 ses1. List.find (participant h) (sessions s) = Some (sid1, ses1) \<longrightarrow>
            sessions (fst (on_disconnect h (fst (on_create_session h sid now s)))) =
              AList.delete sid1 (sessions s) @ [(sid, new)] \<and>
            length (AList.delete sid1 (sessions s)) = length (sessions s) - 1)"
proof (intro conjI allI impI)
  show c: "on_create_session h sid now s =
           (s\<lparr>sessions := sessions s @ [(sid, new)], timers := timers s @ [(next_timer s, sid)],
              next_timer := Suc (next_timer s)\<rparr>, [(Some h, SessionCreated sid)])"
    using assms(2,3) by (simp add: on_create_session_def Let_def update_fresh)
  fix sid1 ses1
  assume f: "List.find (participant h) (sessions s) = Some (sid1, ses1)"
  have k: "sid1 \<in> fst ` set (sessions s)" by (rule find_key[OF f])
  then have ne: "sid1 \<noteq> sid" using assms(2) by auto
  show "length (AList.delete sid1 (sessions s)) = length (sessions s) - 1"
    by (rule length_delete_distinct[OF assms(1) k])
  show "sessions (fst (on_disconnect h (fst (on_create_session h sid now s)))) =
              AList.delete sid1 (sessions s) @ [(sid, new)]"
    unfolding c using ne scan_find_Some[OF find_append_Some[OF f, of "[(sid, new)]"]]
    by (simp add: on_disconnect_def AList.delete_eq)
qed

theorem create_unrestricted_witness:
  "distinct (map fst (sessions (run [CreateSession ''A'' ''S1'' 0] init))) \<and>
   ''S2'' \<notin> fst ` set (sessions (run [CreateSession ''A'' ''S1'' 0] init)) \<and>
   List.find (participant ''A'') (sessions (run [CreateSession ''A'' ''S1'' 0] init)) =
     Some (''S1'', \<lparr>desktop = ''A'', mobile = None, ready = False, pendingSignals = [],
           created = 0, timeout = 0\<rparr>) \<and>
   snd (on_create_session ''A'' ''S2'' 1 (run [CreateSession ''A'' ''S1'' 0] init)) =
     [(Some ''A'', SessionCreated ''S2'')] \<and>
   sessions (fst (on_disconnect ''A'' (fst (on_create_session ''A'' ''S2'' 1
       (run [CreateSession ''A'' ''S1'' 0] init))))) =
     [(''S2'', \<lparr>desktop = ''A'', mobile = None, ready = False, pendingSignals = [],
           created = 1, timeout = 1\<rparr>)]"
proof -
  have d: "distinct (map fst (sessions (run [CreateSession ''A'' ''S1'' 0] init)))"
    by (simp add: handler_defs)
  have n: "''S2'' \<notin> fst ` set (sessions (run [CreateSession ''A'' ''S1'' 0] init))"
    by (simp add: handler_defs)
  have f: "List.find (participant ''A'') (sessions (run [CreateSession ''A'' ''S1'' 0] init)) =
     Some (''S1'', \<lparr>desktop = ''A'', mobile = None, ready = False, pendingSignals = [],
           created = 0, timeout = 0\<rparr>)"
    by (simp add: handler_defs)
  show ?thesis using d n f create_unrestricted[OF d n refl, of "''A''" 1] by (simp add: handler_defs)
qed

end
